theory Spec2Isabelle
  imports Main "HOL-Library.AList"
begin

section \<open>Python values of the workfile builder\<close>

text \<open>
  The development embeds \<^verbatim>\<open>BuildWorkfile\<close> of
  \<^verbatim>\<open>client/ayon_core/pipeline/workfile/build_workfile.py\<close>.
  Python dictionaries keep insertion order and the builder iterates over them, so a
  dictionary is an association list with distinct keys: \<open>map_of\<close> is \<^verbatim>\<open>d.get(k)\<close>,
  \<open>AList.update k v d\<close> is \<^verbatim>\<open>d[k] = v\<close> (in place for a known key, appended for a new
  one), \<open>map fst d\<close> is \<^verbatim>\<open>d.keys()\<close> and \<open>map snd d\<close> is \<^verbatim>\<open>d.values()\<close>.
  A key that a document may lack is an \<open>option\<close> field, \<open>None\<close> meaning that the key is
  absent; subscripting an absent key is the \<^verbatim>\<open>KeyError\<close> branch of the model.
  Names are taken to be ASCII.
\<close>

type_synonym entity_id = string

datatype exn = KeyError string

definition subscript :: "(string \<times> 'v) list \<Rightarrow> string \<Rightarrow> exn + 'v" where
  "subscript d k = (case map_of d k of None \<Rightarrow> Inl (KeyError k) | Some v \<Rightarrow> Inr v)"

definition field :: "'v option \<Rightarrow> string \<Rightarrow> exn + 'v" where
  "field v k = (case v of None \<Rightarrow> Inl (KeyError k) | Some x \<Rightarrow> Inr x)"

definition has_key :: "('k \<times> 'v) list \<Rightarrow> 'k \<Rightarrow> bool" where
  "has_key d k = (map_of d k \<noteq> None)"

text \<open>\<^verbatim>\<open>not v\<close> for a value that is a list when present: absent and empty are both falsy.\<close>

definition py_not :: "'a list option \<Rightarrow> bool" where
  "py_not v = (case v of None \<Rightarrow> True | Some xs \<Rightarrow> xs = [])"

text \<open>\<^verbatim>\<open>v or []\<close>.\<close>

definition or_empty :: "'a list option \<Rightarrow> 'a list" where
  "or_empty v = (case v of None \<Rightarrow> [] | Some xs \<Rightarrow> xs)"

text \<open>\<^verbatim>\<open>d[k].append(v)\<close> on a \<^verbatim>\<open>collections.defaultdict(list)\<close>.\<close>

definition dict_append :: "('k \<times> 'v list) list \<Rightarrow> 'k \<Rightarrow> 'v \<Rightarrow> ('k \<times> 'v list) list" where
  "dict_append d k v = AList.update k (or_empty (map_of d k) @ [v]) d"

text \<open>\<^verbatim>\<open>str.lower\<close> on ASCII text.\<close>

definition lower_char :: "char \<Rightarrow> char" where
  "lower_char c =
     (case map_of (zip ''ABCDEFGHIJKLMNOPQRSTUVWXYZ'' ''abcdefghijklmnopqrstuvwxyz'') c of
        None \<Rightarrow> c
      | Some l \<Rightarrow> l)"

definition lower :: "string \<Rightarrow> string" where
  "lower s = map lower_char s"

subsection \<open>Regular expressions\<close>

text \<open>
  The name filters of a profile are patterns of Python's \<^verbatim>\<open>re\<close> module. A pattern is
  represented by its syntax tree, for the fragment with literals, \<^verbatim>\<open>.\<close>, \<^verbatim>\<open>^\<close>,
  concatenation, alternation and \<^verbatim>\<open>*\<close>; \<^verbatim>\<open>re.compile\<close> is the identity on it.
  \<open>residuals r n s\<close> lists the suffixes of \<open>s\<close> that remain after \<open>r\<close> has matched a
  prefix of \<open>s\<close>, where \<open>n\<close> is the length of the whole subject: the position is its
  start exactly when \<open>length s = n\<close>.
\<close>

datatype regex =
    Eps
  | Lit char
  | Dot
  | Bol
  | Seq regex regex
  | Alt regex regex
  | Star regex

fun iterate :: "nat \<Rightarrow> (string \<Rightarrow> string list) \<Rightarrow> string \<Rightarrow> string list" where
  "iterate 0 f s = [s]"
| "iterate (Suc k) f s =
     s # concat (map (iterate k f) (filter (\<lambda>t. length t < length s) (f s)))"

primrec residuals :: "regex \<Rightarrow> nat \<Rightarrow> string \<Rightarrow> string list" where
  "residuals Eps n s = [s]"
| "residuals (Lit c) n s = (case s of [] \<Rightarrow> [] | x # xs \<Rightarrow> if x = c then [xs] else [])"
| "residuals Dot n s = (case s of [] \<Rightarrow> [] | x # xs \<Rightarrow> if x = CHR 0x0A then [] else [xs])"
| "residuals Bol n s = (if length s = n then [s] else [])"
| "residuals (Seq a b) n s = concat (map (residuals b n) (residuals a n s))"
| "residuals (Alt a b) n s = residuals a n s @ residuals b n s"
| "residuals (Star a) n s = iterate (length s) (residuals a n) s"

text \<open>\<^verbatim>\<open>re.match\<close>, \<^verbatim>\<open>re.fullmatch\<close> and \<^verbatim>\<open>re.search\<close>, as truth values.\<close>

definition re_match :: "regex \<Rightarrow> string \<Rightarrow> bool" where
  "re_match r s = (residuals r (length s) s \<noteq> [])"

definition re_fullmatch :: "regex \<Rightarrow> string \<Rightarrow> bool" where
  "re_fullmatch r s = ([] \<in> set (residuals r (length s) s))"

fun suffixes_of :: "string \<Rightarrow> string list" where
  "suffixes_of [] = [[]]"
| "suffixes_of (x # xs) = (x # xs) # suffixes_of xs"

definition re_search :: "regex \<Rightarrow> string \<Rightarrow> bool" where
  "re_search r s = list_ex (\<lambda>t. residuals r (length s) t \<noteq> []) (suffixes_of s)"

text \<open>The pattern of a literal string, as \<^verbatim>\<open>re.compile\<close> reads a string without operators.\<close>

fun literal :: "string \<Rightarrow> regex" where
  "literal [] = Eps"
| "literal [c] = Lit c"
| "literal (c # cs) = Seq (Lit c) (literal cs)"

subsection \<open>Documents\<close>

record asset_doc =
  asset_id :: entity_id
  asset_name :: string
  asset_tasks :: "(string \<times> string option) list"

record subset_doc =
  subset_id :: entity_id
  subset_name :: string
  subset_parent :: entity_id
  family :: "string option"
  families :: "string list option"

record version_doc =
  version_id :: entity_id
  version_parent :: entity_id

record repre_doc =
  repre_id :: entity_id
  repre_name :: string
  repre_parent :: entity_id

text \<open>
  A loader plugin class: its \<^verbatim>\<open>__name__\<close> and its \<^verbatim>\<open>enabled\<close> flag.
\<close>

record loader =
  loader_class_name :: string
  enabled :: bool

text \<open>
  A build profile. The four configured keys are read with \<^verbatim>\<open>.get\<close> by the filter;
  the two lowered keys are the ones the filter adds.
\<close>

record profile =
  loaders :: "string list option"
  product_types :: "string list option"
  repre_names :: "string list option"
  product_name_filters :: "regex list option"
  product_types_lowered :: "string list option"
  repre_names_lowered :: "string list option"

section \<open>Profile validation\<close>

text \<open>The inner loop of \<^verbatim>\<open>_filter_build_profiles\<close> that looks for an available loader.\<close>

fun loaders_match :: "string list \<Rightarrow> (string \<times> loader) list \<Rightarrow> bool" where
  "loaders_match [] loaders_by_name = False"
| "loaders_match (loader_name # rest) loaders_by_name =
     (if has_key loaders_by_name loader_name then True
      else loaders_match rest loaders_by_name)"

text \<open>
  \<^verbatim>\<open>_filter_build_profiles\<close>: the loop over the profiles. Each \<^verbatim>\<open>continue\<close> drops the
  profile; the warnings it logs are left out.
\<close>

fun filter_build_profiles :: "profile list \<Rightarrow> (string \<times> loader) list \<Rightarrow> profile list" where
  "filter_build_profiles [] loaders_by_name = []"
| "filter_build_profiles (profile # rest) loaders_by_name =
     (if py_not (loaders profile) then filter_build_profiles rest loaders_by_name
      else if \<not> loaders_match (or_empty (loaders profile)) loaders_by_name
        then filter_build_profiles rest loaders_by_name
      else if py_not (product_types profile) then filter_build_profiles rest loaders_by_name
      else if py_not (repre_names profile) then filter_build_profiles rest loaders_by_name
      else profile
             \<lparr>product_types_lowered := Some (map lower (or_empty (product_types profile))),
              repre_names_lowered := Some (map lower (or_empty (repre_names profile)))\<rparr>
           # filter_build_profiles rest loaders_by_name)"

text \<open>
  The validity of a profile in the words of the specification: a non-empty loader list
  with at least one loader of the registry, a non-empty list of product types and a
  non-empty list of representation names.
\<close>

definition profile_is_valid :: "(string \<times> loader) list \<Rightarrow> profile \<Rightarrow> bool" where
  "profile_is_valid loaders_by_name p =
     ((\<exists>ls. loaders p = Some ls \<and> ls \<noteq> [] \<and> (\<exists>l \<in> set ls. l \<in> fst ` set loaders_by_name))
      \<and> (\<exists>ts. product_types p = Some ts \<and> ts \<noteq> [])
      \<and> (\<exists>rs. repre_names p = Some rs \<and> rs \<noteq> []))"

definition with_lowered :: "profile \<Rightarrow> profile" where
  "with_lowered p =
     p\<lparr>product_types_lowered := map_option (map lower) (product_types p),
       repre_names_lowered := map_option (map lower) (repre_names p)\<rparr>"

section \<open>Product-to-profile resolution\<close>

text \<open>
  The product type that \<^verbatim>\<open>map_products_by_type\<close> files a product under: its
  \<^verbatim>\<open>family\<close>, or the first of its \<^verbatim>\<open>families\<close> when the family is absent or empty;
  a product with neither is skipped.
\<close>

definition product_type_of :: "subset_doc \<Rightarrow> string option" where
  "product_type_of doc =
     (if family doc \<noteq> None \<and> family doc \<noteq> Some [] then family doc
      else (case families doc of
              None \<Rightarrow> None
            | Some [] \<Rightarrow> None
            | Some (product_type # _) \<Rightarrow> Some product_type))"

fun map_products_loop ::
  "subset_doc list \<Rightarrow> (string \<times> subset_doc list) list \<Rightarrow> (string \<times> subset_doc list) list" where
  "map_products_loop [] products_by_type = products_by_type"
| "map_products_loop (doc # rest) products_by_type =
     (case product_type_of doc of
        None \<Rightarrow> map_products_loop rest products_by_type
      | Some product_type \<Rightarrow>
          map_products_loop rest (dict_append products_by_type product_type doc))"

definition map_products_by_type :: "subset_doc list \<Rightarrow> (string \<times> subset_doc list) list" where
  "map_products_by_type subset_docs = map_products_loop subset_docs []"

text \<open>The loop over the compiled patterns: \<^verbatim>\<open>valid\<close> after it.\<close>

fun any_pattern_matches :: "regex list \<Rightarrow> string \<Rightarrow> bool" where
  "any_pattern_matches [] name = False"
| "any_pattern_matches (pattern # rest) name =
     (if re_match pattern name then True else any_pattern_matches rest name)"

text \<open>The loop over the products of one type, for the profile that was found.\<close>

fun assign_profile ::
  "profile \<Rightarrow> subset_doc list \<Rightarrow> (entity_id \<times> profile) list \<Rightarrow> (entity_id \<times> profile) list" where
  "assign_profile profile [] profiles_by_product_id = profiles_by_product_id"
| "assign_profile profile (doc # rest) profiles_by_product_id =
     (if \<not> py_not (product_name_filters profile)
         \<and> \<not> any_pattern_matches (or_empty (product_name_filters profile)) (subset_name doc)
      then assign_profile profile rest profiles_by_product_id
      else assign_profile profile rest
             (AList.update (subset_id doc) profile profiles_by_product_id))"

text \<open>
  The loop over the profiles for one product type, left by \<^verbatim>\<open>break\<close> at the first
  profile that lists the type.
\<close>

fun scan_profiles ::
  "string \<Rightarrow> subset_doc list \<Rightarrow> profile list \<Rightarrow> (entity_id \<times> profile) list
   \<Rightarrow> exn + (entity_id \<times> profile) list" where
  "scan_profiles product_type_low docs [] profiles_by_product_id = Inr profiles_by_product_id"
| "scan_profiles product_type_low docs (profile # rest) profiles_by_product_id =
     (case field (product_types_lowered profile) ''product_types_lowered'' of
        Inl e \<Rightarrow> Inl e
      | Inr lowered \<Rightarrow>
          if product_type_low \<notin> set lowered
          then scan_profiles product_type_low docs rest profiles_by_product_id
          else Inr (assign_profile profile docs profiles_by_product_id))"

fun prepare_types ::
  "(string \<times> subset_doc list) list \<Rightarrow> profile list \<Rightarrow> (entity_id \<times> profile) list
   \<Rightarrow> exn + (entity_id \<times> profile) list" where
  "prepare_types [] profiles profiles_by_product_id = Inr profiles_by_product_id"
| "prepare_types ((product_type, docs) # rest) profiles profiles_by_product_id =
     (case scan_profiles (lower product_type) docs profiles profiles_by_product_id of
        Inl e \<Rightarrow> Inl e
      | Inr out \<Rightarrow> prepare_types rest profiles out)"

text \<open>\<^verbatim>\<open>_prepare_profile_for_products\<close>.\<close>

definition prepare_profile_for_products ::
  "subset_doc list \<Rightarrow> profile list \<Rightarrow> exn + (entity_id \<times> profile) list" where
  "prepare_profile_for_products subset_docs profiles =
     prepare_types (map_products_by_type subset_docs) profiles []"

text \<open>
  The resolution in the words of the specification: the first profile, in list order,
  whose lowered product types contain the lowered type of the product; and the name
  filter, which a product passes when the profile has no filter or when one of its
  patterns matches the name from its start.
\<close>

definition first_profile_for :: "profile list \<Rightarrow> string \<Rightarrow> profile option" where
  "first_profile_for profiles product_type =
     find (\<lambda>p. lower product_type \<in> set (or_empty (product_types_lowered p))) profiles"

definition passes_name_filters :: "profile \<Rightarrow> string \<Rightarrow> bool" where
  "passes_name_filters p name =
     (py_not (product_name_filters p)
      \<or> (\<exists>r \<in> set (or_empty (product_name_filters p)). re_match r name))"

definition resolved_profile :: "profile list \<Rightarrow> subset_doc \<Rightarrow> profile option" where
  "resolved_profile profiles doc =
     (case product_type_of doc of
        None \<Rightarrow> None
      | Some product_type \<Rightarrow>
          (case first_profile_for profiles product_type of
             None \<Rightarrow> None
           | Some p \<Rightarrow> if passes_name_filters p (subset_name doc) then Some p else None))"

text \<open>What one product type contributes to the result.\<close>

definition group_profile :: "profile list \<Rightarrow> string \<times> subset_doc list \<Rightarrow> entity_id \<Rightarrow> profile option" where
  "group_profile profiles g k =
     (case first_profile_for profiles (fst g) of
        None \<Rightarrow> None
      | Some p \<Rightarrow>
          if \<exists>d \<in> set (snd g). subset_id d = k \<and> passes_name_filters p (subset_name d)
          then Some p else None)"


section \<open>The ordered load loop\<close>

text \<open>
  \<^verbatim>\<open>load_container\<close> belongs to the loader registry: it returns a container or raises.
  What it raises is an instance of an exception class. The builder compares the caught
  instance with the class object \<^verbatim>\<open>IncompatibleLoaderError\<close> by \<^verbatim>\<open>==\<close>, which for
  these objects is identity.
\<close>

datatype exc_class = IncompatibleLoaderError | OtherError string

datatype py_object = ClassObject exc_class | Instance exc_class string

type_synonym raised = "exc_class \<times> string"

definition exc_equals_class :: "raised \<Rightarrow> exc_class \<Rightarrow> bool" where
  "exc_equals_class exc cls = (Instance (fst exc) (snd exc) = ClassObject cls)"

text \<open>
  What the builder does to the outside: the queries to the representation store, the calls
  of \<^verbatim>\<open>load_container\<close> (loader name, representation id, product name) and the records
  it logs in the load loop. The functions below return the events in the order they
  happen, next to their result; the answers of the collaborators are functions of the
  arguments. Other log records and the \<^verbatim>\<open>print\<close> calls are left out.
\<close>

datatype followup = TryingNextLoader | NotSuccessful string | TryingNextRepresentation

datatype log_record =
    InfoNotCompatible string string
  | ErrorUnexpected
  | InfoLoadingFailed followup

datatype event =
    GetAssetByName string
  | GetLinkedAssets entity_id
  | GetSubsets "entity_id list"
  | GetLastVersions "entity_id list"
  | GetRepresentations "entity_id list"
  | LoadContainer string entity_id string
  | Log log_record

text \<open>
  \<^verbatim>\<open>self.build_presets\<close>: the profile that \<^verbatim>\<open>filter_profiles\<close> selected for the task,
  with its two pools of build profiles and its task filters.
\<close>

record build_presets =
  task_types :: "string list option"
  tasks :: "string list option"
  current_context :: "profile list option"
  linked_assets :: "profile list option"

subsection \<open>The order of the products\<close>

text \<open>The loop over \<^verbatim>\<open>products_by_id.items()\<close> for one product type of one preset.\<close>

fun ids_of_type :: "string \<Rightarrow> (entity_id \<times> subset_doc) list \<Rightarrow> entity_id list" where
  "ids_of_type product_type [] = []"
| "ids_of_type product_type ((product_id, doc) # rest) =
     (if product_type \<notin> set (or_empty (families doc)) then ids_of_type product_type rest
      else product_id # ids_of_type product_type rest)"

fun ids_of_types :: "string list \<Rightarrow> (entity_id \<times> subset_doc) list \<Rightarrow> entity_id list" where
  "ids_of_types [] products_by_id = []"
| "ids_of_types (product_type # rest) products_by_id =
     ids_of_type product_type products_by_id @ ids_of_types rest products_by_id"

text \<open>The loop over the presets; \<^verbatim>\<open>preset["product_types"]\<close> raises for a preset without the key.\<close>

fun product_ids_ordered ::
  "profile list \<Rightarrow> (entity_id \<times> subset_doc) list \<Rightarrow> exn + entity_id list" where
  "product_ids_ordered [] products_by_id = Inr []"
| "product_ids_ordered (preset # rest) products_by_id =
     (case field (product_types preset) ''product_types'' of
        Inl e \<Rightarrow> Inl e
      | Inr types \<Rightarrow>
          (case product_ids_ordered rest products_by_id of
             Inl e \<Rightarrow> Inl e
           | Inr ids \<Rightarrow> Inr (ids_of_types types products_by_id @ ids)))"

text \<open>
  The loop over \<^verbatim>\<open>repres_by_product_id.items()\<close> for one ordered product id. The state is
  \<^verbatim>\<open>representations_ordered\<close> and \<^verbatim>\<open>representations\<close>; the guard
  \<^verbatim>\<open>repres in representations\<close> compares the lists by value.
\<close>

fun enqueue_product ::
  "entity_id \<Rightarrow> (entity_id \<times> repre_doc list) list
   \<Rightarrow> (entity_id \<times> repre_doc list) list \<times> repre_doc list list
   \<Rightarrow> (entity_id \<times> repre_doc list) list \<times> repre_doc list list" where
  "enqueue_product ordered_product_id [] st = st"
| "enqueue_product ordered_product_id ((product_id, repres) # rest) (ordered, seen) =
     (if repres \<in> set seen then enqueue_product ordered_product_id rest (ordered, seen)
      else if ordered_product_id = product_id
        then enqueue_product ordered_product_id rest
               (ordered @ [(product_id, repres)], seen @ [repres])
      else enqueue_product ordered_product_id rest (ordered, seen))"

fun order_representations ::
  "entity_id list \<Rightarrow> (entity_id \<times> repre_doc list) list
   \<Rightarrow> (entity_id \<times> repre_doc list) list \<times> repre_doc list list
   \<Rightarrow> (entity_id \<times> repre_doc list) list \<times> repre_doc list list" where
  "order_representations [] repres_by_product_id st = st"
| "order_representations (ordered_product_id # rest) repres_by_product_id st =
     order_representations rest repres_by_product_id
       (enqueue_product ordered_product_id repres_by_product_id st)"

definition representations_ordered ::
  "entity_id list \<Rightarrow> (entity_id \<times> repre_doc list) list \<Rightarrow> (entity_id \<times> repre_doc list) list" where
  "representations_ordered product_ids repres_by_product_id =
     fst (order_representations product_ids repres_by_product_id ([], []))"

subsection \<open>The load attempts for one product\<close>

text \<open>The dict comprehension \<^verbatim>\<open>repre_by_low_name\<close>: a later representation replaces an
  earlier one of the same lowered name.\<close>

fun repre_by_low_name_loop ::
  "repre_doc list \<Rightarrow> (string \<times> repre_doc) list \<Rightarrow> (string \<times> repre_doc) list" where
  "repre_by_low_name_loop [] d = d"
| "repre_by_low_name_loop (repre # rest) d =
     repre_by_low_name_loop rest (AList.update (lower (repre_name repre)) repre d)"

definition repre_by_low_name :: "repre_doc list \<Rightarrow> (string \<times> repre_doc) list" where
  "repre_by_low_name repres = repre_by_low_name_loop repres []"

text \<open>
  The loop over \<^verbatim>\<open>profile["loaders"]\<close> for one representation. The state is
  \<^verbatim>\<open>is_loaded\<close>, \<^verbatim>\<open>loaded_containers\<close> and the events so far.
\<close>

fun try_loaders ::
  "(loader \<Rightarrow> entity_id \<Rightarrow> string \<Rightarrow> raised + 'c) \<Rightarrow> (string \<times> loader) list \<Rightarrow> string
   \<Rightarrow> int \<Rightarrow> int \<Rightarrow> repre_doc \<Rightarrow> int \<Rightarrow> int \<Rightarrow> string list
   \<Rightarrow> bool \<times> 'c list \<times> event list \<Rightarrow> bool \<times> 'c list \<times> event list" where
  "try_loaders load_container loaders_by_name product_name loaders_last_idx
     repre_names_last_idx repre repre_name_idx loader_idx [] st = st"
| "try_loaders load_container loaders_by_name product_name loaders_last_idx
     repre_names_last_idx repre repre_name_idx loader_idx (loader_name # rest)
     (is_loaded, loaded_containers, events) =
     (if is_loaded then (is_loaded, loaded_containers, events)
      else (case map_of loaders_by_name loader_name of
              None \<Rightarrow>
                try_loaders load_container loaders_by_name product_name loaders_last_idx
                  repre_names_last_idx repre repre_name_idx (loader_idx + 1) rest
                  (is_loaded, loaded_containers, events)
            | Some loader \<Rightarrow>
                (case load_container loader (repre_id repre) product_name of
                   Inr container \<Rightarrow>
                     try_loaders load_container loaders_by_name product_name loaders_last_idx
                       repre_names_last_idx repre repre_name_idx (loader_idx + 1) rest
                       (True, loaded_containers @ [container],
                        events @ [LoadContainer (loader_class_name loader) (repre_id repre)
                                    product_name])
                 | Inl exc \<Rightarrow>
                     try_loaders load_container loaders_by_name product_name loaders_last_idx
                       repre_names_last_idx repre repre_name_idx (loader_idx + 1) rest
                       (is_loaded, loaded_containers,
                        events @
                        [LoadContainer (loader_class_name loader) (repre_id repre) product_name,
                         Log (if exc_equals_class exc IncompatibleLoaderError
                              then InfoNotCompatible loader_name (repre_name repre)
                              else ErrorUnexpected),
                         Log (InfoLoadingFailed
                                (if loader_idx < loaders_last_idx then TryingNextLoader
                                 else if repre_name_idx < repre_names_last_idx
                                   then NotSuccessful product_name
                                 else TryingNextRepresentation))]))))"

text \<open>The loop over \<^verbatim>\<open>profile["repre_names_lowered"]\<close>.\<close>

fun try_repre_names ::
  "(loader \<Rightarrow> entity_id \<Rightarrow> string \<Rightarrow> raised + 'c) \<Rightarrow> (string \<times> loader) list \<Rightarrow> string
   \<Rightarrow> int \<Rightarrow> int \<Rightarrow> (string \<times> repre_doc) list \<Rightarrow> string list \<Rightarrow> int \<Rightarrow> string list
   \<Rightarrow> bool \<times> 'c list \<times> event list \<Rightarrow> bool \<times> 'c list \<times> event list" where
  "try_repre_names load_container loaders_by_name product_name loaders_last_idx
     repre_names_last_idx by_low_name profile_loaders repre_name_idx [] st = st"
| "try_repre_names load_container loaders_by_name product_name loaders_last_idx
     repre_names_last_idx by_low_name profile_loaders repre_name_idx
     (profile_repre_name # rest) (is_loaded, loaded_containers, events) =
     (if is_loaded then (is_loaded, loaded_containers, events)
      else (case map_of by_low_name profile_repre_name of
              None \<Rightarrow>
                try_repre_names load_container loaders_by_name product_name loaders_last_idx
                  repre_names_last_idx by_low_name profile_loaders (repre_name_idx + 1) rest
                  (is_loaded, loaded_containers, events)
            | Some repre \<Rightarrow>
                try_repre_names load_container loaders_by_name product_name loaders_last_idx
                  repre_names_last_idx by_low_name profile_loaders (repre_name_idx + 1) rest
                  (try_loaders load_container loaders_by_name product_name loaders_last_idx
                     repre_names_last_idx repre repre_name_idx 0 profile_loaders
                     (is_loaded, loaded_containers, events))))"

text \<open>
  The body of the loop over \<^verbatim>\<open>representations_ordered\<close>: the four subscripts, then the
  attempts. A failing subscript raises \<^verbatim>\<open>KeyError\<close> out of the builder.
\<close>

definition load_product ::
  "(loader \<Rightarrow> entity_id \<Rightarrow> string \<Rightarrow> raised + 'c) \<Rightarrow> (string \<times> loader) list
   \<Rightarrow> (entity_id \<times> subset_doc) list \<Rightarrow> (entity_id \<times> profile) list
   \<Rightarrow> entity_id \<times> repre_doc list \<Rightarrow> 'c list \<times> event list \<Rightarrow> exn + 'c list \<times> event list" where
  "load_product load_container loaders_by_name products_by_id profiles_by_product_id entry st =
     (case subscript products_by_id (fst entry) of
        Inl e \<Rightarrow> Inl e
      | Inr doc \<Rightarrow>
          (case subscript profiles_by_product_id (fst entry) of
             Inl e \<Rightarrow> Inl e
           | Inr profile \<Rightarrow>
               (case field (loaders profile) ''loaders'' of
                  Inl e \<Rightarrow> Inl e
                | Inr profile_loaders \<Rightarrow>
                    (case field (repre_names_lowered profile) ''repre_names_lowered'' of
                       Inl e \<Rightarrow> Inl e
                     | Inr names \<Rightarrow>
                         Inr (snd (try_repre_names load_container loaders_by_name
                                (subset_name doc) (int (length profile_loaders) - 1)
                                (int (length names) - 1) (repre_by_low_name (snd entry))
                                profile_loaders 0 names (False, fst st, snd st)))))))"

fun load_ordered ::
  "(loader \<Rightarrow> entity_id \<Rightarrow> string \<Rightarrow> raised + 'c) \<Rightarrow> (string \<times> loader) list
   \<Rightarrow> (entity_id \<times> subset_doc) list \<Rightarrow> (entity_id \<times> profile) list
   \<Rightarrow> (entity_id \<times> repre_doc list) list \<Rightarrow> 'c list \<times> event list
   \<Rightarrow> (exn + 'c list) \<times> event list" where
  "load_ordered load_container loaders_by_name products_by_id profiles_by_product_id [] st =
     (Inr (fst st), snd st)"
| "load_ordered load_container loaders_by_name products_by_id profiles_by_product_id
     (entry # rest) st =
     (case load_product load_container loaders_by_name products_by_id profiles_by_product_id
             entry st of
        Inl e \<Rightarrow> (Inl e, snd st)
      | Inr st' \<Rightarrow>
          load_ordered load_container loaders_by_name products_by_id profiles_by_product_id
            rest st')"

text \<open>
  \<^verbatim>\<open>_load_containers\<close>. The preset list is \<^verbatim>\<open>self.build_presets.get("current_context", [])\<close>
  extended in place by the linked pool: when the key is present the list stored in
  \<^verbatim>\<open>self.build_presets\<close> grows, so the new \<^verbatim>\<open>self.build_presets\<close> is part of the result.
\<close>

definition preset_sequence :: "build_presets \<Rightarrow> profile list" where
  "preset_sequence presets = or_empty (current_context presets) @ or_empty (linked_assets presets)"

definition extend_current_context :: "build_presets \<Rightarrow> build_presets" where
  "extend_current_context presets =
     (case current_context presets of
        None \<Rightarrow> presets
      | Some _ \<Rightarrow> presets\<lparr>current_context := Some (preset_sequence presets)\<rparr>)"

definition load_containers ::
  "(loader \<Rightarrow> entity_id \<Rightarrow> string \<Rightarrow> raised + 'c) \<Rightarrow> build_presets
   \<Rightarrow> (entity_id \<times> repre_doc list) list \<Rightarrow> (entity_id \<times> subset_doc) list
   \<Rightarrow> (entity_id \<times> profile) list \<Rightarrow> (string \<times> loader) list
   \<Rightarrow> ((exn + 'c list) \<times> event list) \<times> build_presets" where
  "load_containers load_container presets repres_by_product_id products_by_id
     profiles_by_product_id loaders_by_name =
     (case product_ids_ordered (preset_sequence presets) products_by_id of
        Inl e \<Rightarrow> ((Inl e, []), extend_current_context presets)
      | Inr product_ids \<Rightarrow>
          (load_ordered load_container loaders_by_name products_by_id profiles_by_product_id
             (representations_ordered product_ids repres_by_product_id) ([], []),
           extend_current_context presets))"

text \<open>
  The attempts in the words of the specification. The plan of a product lists the
  (loader, representation) pairs by representation name in priority order and, for each
  name, by loader in priority order; \<open>first_success\<close> makes the calls of a plan up to
  and including the first one that does not raise.
\<close>

definition product_plan ::
  "(string \<times> loader) list \<Rightarrow> profile \<Rightarrow> repre_doc list \<Rightarrow> (loader \<times> repre_doc) list" where
  "product_plan loaders_by_name profile repres =
     concat (map (\<lambda>name.
         case map_of (repre_by_low_name repres) name of
           None \<Rightarrow> []
         | Some repre \<Rightarrow>
             concat (map (\<lambda>loader_name.
                 case map_of loaders_by_name loader_name of
                   None \<Rightarrow> []
                 | Some loader \<Rightarrow> [(loader, repre)])
               (or_empty (loaders profile))))
       (or_empty (repre_names_lowered profile)))"

fun first_success ::
  "(loader \<Rightarrow> entity_id \<Rightarrow> string \<Rightarrow> raised + 'c) \<Rightarrow> string \<Rightarrow> (loader \<times> repre_doc) list
   \<Rightarrow> (string \<times> entity_id \<times> string) list \<times> 'c list" where
  "first_success load_container product_name [] = ([], [])"
| "first_success load_container product_name ((loader, repre) # rest) =
     (case load_container loader (repre_id repre) product_name of
        Inr container \<Rightarrow> ([(loader_class_name loader, repre_id repre, product_name)], [container])
      | Inl exc \<Rightarrow>
          ((loader_class_name loader, repre_id repre, product_name)
             # fst (first_success load_container product_name rest),
           snd (first_success load_container product_name rest)))"

definition product_outcome ::
  "(loader \<Rightarrow> entity_id \<Rightarrow> string \<Rightarrow> raised + 'c) \<Rightarrow> (string \<times> loader) list
   \<Rightarrow> (entity_id \<times> subset_doc) list \<Rightarrow> (entity_id \<times> profile) list
   \<Rightarrow> entity_id \<times> repre_doc list \<Rightarrow> (string \<times> entity_id \<times> string) list \<times> 'c list" where
  "product_outcome load_container loaders_by_name products_by_id profiles_by_product_id entry =
     (case (map_of products_by_id (fst entry), map_of profiles_by_product_id (fst entry)) of
        (Some doc, Some profile) \<Rightarrow>
          first_success load_container (subset_name doc)
            (product_plan loaders_by_name profile (snd entry))
      | _ \<Rightarrow> ([], []))"

text \<open>The calls of \<^verbatim>\<open>load_container\<close> among the events.\<close>

fun load_calls :: "event list \<Rightarrow> (string \<times> entity_id \<times> string) list" where
  "load_calls [] = []"
| "load_calls (LoadContainer l r n # rest) = (l, r, n) # load_calls rest"
| "load_calls (_ # rest) = load_calls rest"

text \<open>The ids of a list in the order of their first occurrence.\<close>

fun firsts :: "'a list \<Rightarrow> 'a list \<Rightarrow> 'a list" where
  "firsts seen [] = []"
| "firsts seen (x # xs) = (if x \<in> set seen then firsts seen xs else x # firsts (x # seen) xs)"

definition first_occurrences :: "'a list \<Rightarrow> 'a list" where
  "first_occurrences xs = firsts [] xs"

text \<open>The part of a plan for one representation, and for a list of representation names.\<close>

definition loader_plan :: "(string \<times> loader) list \<Rightarrow> repre_doc \<Rightarrow> string list \<Rightarrow> (loader \<times> repre_doc) list" where
  "loader_plan lbn repre ls =
     concat (map (\<lambda>loader_name.
                 case map_of lbn loader_name of
                   None \<Rightarrow> []
                 | Some loader \<Rightarrow> [(loader, repre)]) ls)"

definition names_plan ::
  "(string \<times> loader) list \<Rightarrow> (string \<times> repre_doc) list \<Rightarrow> string list \<Rightarrow> string list
   \<Rightarrow> (loader \<times> repre_doc) list" where
  "names_plan lbn by_low ls names =
     concat (map (\<lambda>name. case map_of by_low name of
                            None \<Rightarrow> []
                          | Some repre \<Rightarrow> loader_plan lbn repre ls) names)"

text \<open>
  A product id whose four subscripts in the loop body succeed: it has a product document and
  a profile, and the profile has its loaders and its lowered representation names.
\<close>

definition entry_ok :: "(entity_id \<times> subset_doc) list \<Rightarrow> (entity_id \<times> profile) list \<Rightarrow> entity_id \<Rightarrow> bool" where
  "entry_ok pbi pbp product_id =
     (case (map_of pbi product_id, map_of pbp product_id) of
        (Some doc, Some profile) \<Rightarrow> loaders profile \<noteq> None \<and> repre_names_lowered profile \<noteq> None
      | _ \<Rightarrow> False)"

text \<open>The events without a record of the incompatible-loader branch.\<close>

fun is_not_compatible :: "event \<Rightarrow> bool" where
  "is_not_compatible (Log (InfoNotCompatible l r)) = True"
| "is_not_compatible _ = False"

definition incompatible_free :: "event list \<Rightarrow> bool" where
  "incompatible_free es = list_all (\<lambda>e. \<not> is_not_compatible e) es"

text \<open>
  The invariant of the queue construction: the seen lists are those of the queue, they are
  pairwise different, and the queue holds entries of the dictionary only.
\<close>

definition queue_inv ::
  "(entity_id \<times> repre_doc list) set
   \<Rightarrow> (entity_id \<times> repre_doc list) list \<times> repre_doc list list \<Rightarrow> bool" where
  "queue_inv A st = (snd st = map snd (fst st) \<and> distinct (snd st) \<and> set (fst st) \<subseteq> A)"

section \<open>Example data\<close>

definition ex_registry :: "(string \<times> loader) list" where
  "ex_registry = [(''LoaderX'', \<lparr>loader_class_name = ''LoaderX'', enabled = True\<rparr>)]"

definition ex_profile ::
  "string list option \<Rightarrow> string list option \<Rightarrow> string list option \<Rightarrow> regex list option \<Rightarrow> profile" where
  "ex_profile ls ts rs fs =
     \<lparr>loaders = ls, product_types = ts, repre_names = rs, product_name_filters = fs,
      product_types_lowered = None, repre_names_lowered = None\<rparr>"

definition ex_product :: "entity_id \<Rightarrow> string \<Rightarrow> string option \<Rightarrow> string list option \<Rightarrow> subset_doc" where
  "ex_product i n f fs =
     \<lparr>subset_id = i, subset_name = n, subset_parent = ''folder1'', family = f, families = fs\<rparr>"

text \<open>A profile for models whose names start with \<^verbatim>\<open>char\<close>, and one for models and rigs.\<close>

definition ex_char_models :: profile where
  "ex_char_models =
     with_lowered (ex_profile (Some [''LoaderX'']) (Some [''Model'']) (Some [''abc''])
       (Some [Seq (literal ''char'') (Star Dot)]))"

definition ex_models_rigs :: profile where
  "ex_models_rigs =
     with_lowered (ex_profile (Some [''LoaderX'']) (Some [''model'', ''rig'']) (Some [''abc'']) None)"

definition ex_products :: "subset_doc list" where
  "ex_products =
     [ex_product ''p1'' ''charA_model'' (Some ''Model'') None,
      ex_product ''p2'' ''charB_model'' (Some ''model'') None,
      ex_product ''p3'' ''propC_rig'' None (Some [''rig'', ''model'']),
      ex_product ''p4'' ''camD'' (Some ''camera'') None,
      ex_product ''p5'' ''propE_model'' (Some ''model'') None]"

definition ex_charA :: subset_doc where
  "ex_charA = ex_product ''p1'' ''charA_model'' (Some ''model'') None"

definition ex_filtered :: "regex \<Rightarrow> profile" where
  "ex_filtered r =
     with_lowered (ex_profile (Some [''LoaderX'']) (Some [''model'']) (Some [''abc'']) (Some [r]))"

section \<open>Properties\<close>

lemma has_key_iff: "has_key d k \<longleftrightarrow> k \<in> fst ` set d"
  by (simp add: has_key_def map_of_eq_None_iff)

lemma loaders_match_iff:
  "loaders_match ls loaders_by_name \<longleftrightarrow> (\<exists>l \<in> set ls. l \<in> fst ` set loaders_by_name)"
  by (induction ls) (auto simp: has_key_iff)

lemma filter_build_profiles_step:
  "filter_build_profiles (p # ps) L =
     (if profile_is_valid L p then with_lowered p # filter_build_profiles ps L
      else filter_build_profiles ps L)"
  by (cases "loaders p"; cases "product_types p"; cases "repre_names p")
     (auto simp: profile_is_valid_def with_lowered_def py_not_def or_empty_def
        loaders_match_iff)


lemma filter_build_profiles_eq:
  "filter_build_profiles ps L = map with_lowered (filter (profile_is_valid L) ps)"
  by (induction ps) (simp_all add: filter_build_profiles_step del: filter_build_profiles.simps(2))

text \<open>
  C5. \<^verbatim>\<open>_filter_build_profiles\<close> keeps exactly the valid profiles, in their order: those
  with a non-empty loader list of which at least one loader is in the registry, a
  non-empty list of product types and a non-empty list of representation names. Each
  profile it keeps carries the lower-cased product types and representation names.
\<close>

theorem filter_build_profiles_keeps_valid:
  "filter_build_profiles ps L = map with_lowered (filter (profile_is_valid L) ps)
   \<and> (\<forall>q \<in> set (filter_build_profiles ps L).
         \<exists>ls ts rs. loaders q = Some ls \<and> ls \<noteq> [] \<and> product_types q = Some ts \<and> ts \<noteq> []
           \<and> repre_names q = Some rs \<and> rs \<noteq> []
           \<and> product_types_lowered q = Some (map lower ts)
           \<and> repre_names_lowered q = Some (map lower rs))"
  unfolding filter_build_profiles_eq
  by (auto simp: with_lowered_def profile_is_valid_def)

theorem filter_build_profiles_keeps_valid_witness:
  "filter_build_profiles
     [ex_profile (Some [''LoaderY'', ''LoaderX'']) (Some [''Model'']) (Some [''ABC'']) None,
      ex_profile None (Some [''Model'']) (Some [''ABC'']) None,
      ex_profile (Some [''LoaderY'']) (Some [''Model'']) (Some [''ABC'']) None,
      ex_profile (Some [''LoaderX'']) (Some []) (Some [''ABC'']) None,
      ex_profile (Some [''LoaderX'']) (Some [''Model'']) None None] ex_registry
   = [(ex_profile (Some [''LoaderY'', ''LoaderX'']) (Some [''Model'']) (Some [''ABC'']) None)
        \<lparr>product_types_lowered := Some [''model''], repre_names_lowered := Some [''abc'']\<rparr>]"
  using filter_build_profiles_keeps_valid
    [of "[ex_profile (Some [''LoaderY'', ''LoaderX'']) (Some [''Model'']) (Some [''ABC'']) None,
      ex_profile None (Some [''Model'']) (Some [''ABC'']) None,
      ex_profile (Some [''LoaderY'']) (Some [''Model'']) (Some [''ABC'']) None,
      ex_profile (Some [''LoaderX'']) (Some []) (Some [''ABC'']) None,
      ex_profile (Some [''LoaderX'']) (Some [''Model'']) None None]" ex_registry]
  by (simp add: ex_profile_def ex_registry_def profile_is_valid_def with_lowered_def
      lower_def lower_char_def)

lemma any_pattern_matches_iff:
  "any_pattern_matches rs name \<longleftrightarrow> (\<exists>r \<in> set rs. re_match r name)"
  by (induction rs) auto

lemma map_of_dict_append:
  "map_of (dict_append d k v) k' =
     (if k' = k then Some (or_empty (map_of d k) @ [v]) else map_of d k')"
  by (simp add: dict_append_def update_conv')

lemma distinct_dict_append:
  "distinct (map fst d) \<Longrightarrow> distinct (map fst (dict_append d k v))"
  by (simp add: dict_append_def distinct_update)

lemma map_of_map_products_loop:
  "map_of (map_products_loop docs acc) t =
     (if filter (\<lambda>d. product_type_of d = Some t) docs = [] then map_of acc t
      else Some (or_empty (map_of acc t) @ filter (\<lambda>d. product_type_of d = Some t) docs))"
  by (induction docs arbitrary: acc)
     (auto simp: map_of_dict_append or_empty_def split: option.splits)

lemma distinct_map_products_loop:
  "distinct (map fst acc) \<Longrightarrow> distinct (map fst (map_products_loop docs acc))"
  by (induction docs arbitrary: acc) (auto simp: distinct_dict_append split: option.splits)

lemma map_products_by_type_entry:
  "(t, ds) \<in> set (map_products_by_type docs) \<longleftrightarrow>
     ds = filter (\<lambda>d. product_type_of d = Some t) docs \<and> ds \<noteq> []"
proof -
  have d: "distinct (map fst (map_products_by_type docs))"
    by (simp add: map_products_by_type_def distinct_map_products_loop)
  have "(t, ds) \<in> set (map_products_by_type docs) \<longleftrightarrow>
          map_of (map_products_by_type docs) t = Some ds"
    using d by simp
  then show ?thesis
    by (auto simp: map_products_by_type_def map_of_map_products_loop or_empty_def)
qed

lemma map_of_assign_profile:
  "map_of (assign_profile p ds out) k =
     (if \<exists>d \<in> set ds. subset_id d = k \<and> passes_name_filters p (subset_name d) then Some p
      else map_of out k)"
  by (induction ds arbitrary: out)
     (auto simp: update_conv' passes_name_filters_def any_pattern_matches_iff)

lemma distinct_assign_profile:
  "distinct (map fst out) \<Longrightarrow> distinct (map fst (assign_profile p ds out))"
  by (induction ds arbitrary: out) (auto simp: distinct_update)

lemma scan_profiles_first:
  "\<forall>p \<in> set profiles. product_types_lowered p \<noteq> None \<Longrightarrow>
   scan_profiles (lower t) ds profiles out =
     Inr (case first_profile_for profiles t of
            None \<Rightarrow> out
          | Some p \<Rightarrow> assign_profile p ds out)"
  by (induction profiles)
     (auto simp: first_profile_for_def field_def or_empty_def split: option.splits)

lemma prepare_types_result:
  assumes "\<forall>p \<in> set profiles. product_types_lowered p \<noteq> None"
  shows "\<exists>out'. prepare_types G profiles out = Inr out'
           \<and> (distinct (map fst out) \<longrightarrow> distinct (map fst out'))
           \<and> (\<forall>k. (\<forall>g \<in> set G. group_profile profiles g k = None) \<longrightarrow> map_of out' k = map_of out k)
           \<and> (\<forall>k g. g \<in> set G \<longrightarrow> (\<forall>h \<in> set G. h \<noteq> g \<longrightarrow> group_profile profiles h k = None) \<longrightarrow>
                 group_profile profiles g k \<noteq> None \<longrightarrow>
                 map_of out' k = group_profile profiles g k)"
proof (induction G arbitrary: out)
  case Nil
  then show ?case by simp
next
  case (Cons g G)
  obtain t ds where g: "g = (t, ds)" by (cases g)
  let ?mid = "case first_profile_for profiles t of None \<Rightarrow> out | Some p \<Rightarrow> assign_profile p ds out"
  have scan: "scan_profiles (lower t) ds profiles out = Inr ?mid"
    using assms by (rule scan_profiles_first)
  have mid: "map_of ?mid k = (case group_profile profiles g k of None \<Rightarrow> map_of out k | Some p \<Rightarrow> Some p)" for k
    by (auto simp: g group_profile_def map_of_assign_profile split: option.splits)
  have dmid: "distinct (map fst out) \<longrightarrow> distinct (map fst ?mid)"
    by (auto simp: distinct_assign_profile split: option.splits)
  from Cons.IH [of ?mid] obtain out' where
    r: "prepare_types G profiles ?mid = Inr out'"
    and d: "distinct (map fst ?mid) \<longrightarrow> distinct (map fst out')"
    and n: "\<And>k. (\<forall>g \<in> set G. group_profile profiles g k = None) \<Longrightarrow> map_of out' k = map_of ?mid k"
    and s: "\<And>k h. h \<in> set G \<Longrightarrow> (\<forall>h' \<in> set G. h' \<noteq> h \<longrightarrow> group_profile profiles h' k = None) \<Longrightarrow>
                 group_profile profiles h k \<noteq> None \<Longrightarrow>
                 map_of out' k = group_profile profiles h k"
    by blast
  have "prepare_types (g # G) profiles out = Inr out'"
    using scan r by (simp add: g)
  moreover have "distinct (map fst out) \<longrightarrow> distinct (map fst out')"
    using d dmid by blast
  moreover have "map_of out' k = map_of out k"
    if "\<forall>h \<in> set (g # G). group_profile profiles h k = None" for k
    using that n [of k] mid [of k] by simp
  moreover have "map_of out' k = group_profile profiles h k"
    if "h \<in> set (g # G)" and "\<forall>h' \<in> set (g # G). h' \<noteq> h \<longrightarrow> group_profile profiles h' k = None"
      and "group_profile profiles h k \<noteq> None" for k h
  proof (cases "h \<in> set G \<and> (h \<noteq> g \<or> (\<forall>h' \<in> set G. h' \<noteq> h \<longrightarrow> group_profile profiles h' k = None))")
    case True
    then have "h \<in> set G" by simp
    moreover have "\<forall>h' \<in> set G. h' \<noteq> h \<longrightarrow> group_profile profiles h' k = None"
      using that(2) by simp
    ultimately show ?thesis using s that(3) by blast
  next
    case False
    then have hg: "h = g" using that(1) by auto
    have "\<forall>h' \<in> set G. group_profile profiles h' k = None"
    proof
      fix h' assume h': "h' \<in> set G"
      show "group_profile profiles h' k = None"
      proof (cases "h' = h")
        case True
        with False h' show ?thesis using that(2) by auto
      next
        case False
        with that(2) h' show ?thesis by simp
      qed
    qed
    then have "map_of out' k = map_of ?mid k" by (rule n)
    then show ?thesis using mid [of k] that(3) hg by (auto split: option.splits)
  qed
  ultimately show ?case by blast
qed


lemma group_profile_other:
  assumes inj: "inj_on subset_id (set docs)" and d: "d \<in> set docs"
    and h: "(t', ds') \<in> set (map_products_by_type docs)"
    and ne: "product_type_of d \<noteq> Some t'"
  shows "group_profile profiles (t', ds') (subset_id d) = None"
proof -
  have ds': "ds' = filter (\<lambda>d. product_type_of d = Some t') docs"
    using h by (simp add: map_products_by_type_entry)
  have "subset_id d' \<noteq> subset_id d" if "d' \<in> set ds'" for d'
  proof -
    from that ds' have "d' \<in> set docs" and "product_type_of d' = Some t'" by auto
    with ne have "d' \<noteq> d" by auto
    with inj d \<open>d' \<in> set docs\<close> show ?thesis by (auto dest: inj_onD)
  qed
  then show ?thesis by (auto simp: group_profile_def split: option.splits)
qed

lemma group_profile_own:
  assumes inj: "inj_on subset_id (set docs)" and d: "d \<in> set docs"
    and t: "product_type_of d = Some t"
  shows "group_profile profiles (t, filter (\<lambda>d. product_type_of d = Some t) docs) (subset_id d)
         = resolved_profile profiles d"
proof -
  have "d' = d" if "d' \<in> set docs" and "subset_id d' = subset_id d" for d'
    using inj d that by (auto dest: inj_onD)
  then show ?thesis
    using d t by (auto simp: group_profile_def resolved_profile_def split: option.splits)
qed

lemma prepare_profile_for_products_resolved:
  assumes dist: "distinct (map subset_id docs)"
    and low: "\<forall>p \<in> set profiles. product_types_lowered p \<noteq> None"
  shows "\<exists>out. prepare_profile_for_products docs profiles = Inr out
           \<and> distinct (map fst out)
           \<and> (\<forall>d \<in> set docs. map_of out (subset_id d) = resolved_profile profiles d)
           \<and> (\<forall>k. k \<notin> subset_id ` set docs \<longrightarrow> map_of out k = None)"
proof -
  let ?G = "map_products_by_type docs"
  have inj: "inj_on subset_id (set docs)"
    using dist by (simp add: distinct_map)
  from prepare_types_result [OF low, of ?G "[]"] obtain out where
    r: "prepare_types ?G profiles [] = Inr out"
    and dd: "distinct (map fst out)"
    and n: "\<And>k. (\<forall>g \<in> set ?G. group_profile profiles g k = None) \<Longrightarrow> map_of out k = None"
    and s: "\<And>k g. g \<in> set ?G \<Longrightarrow> (\<forall>h \<in> set ?G. h \<noteq> g \<longrightarrow> group_profile profiles h k = None) \<Longrightarrow>
                 group_profile profiles g k \<noteq> None \<Longrightarrow> map_of out k = group_profile profiles g k"
    by auto
  have res: "map_of out (subset_id d) = resolved_profile profiles d" if d: "d \<in> set docs" for d
  proof (cases "product_type_of d")
    case None
    have "\<forall>g \<in> set ?G. group_profile profiles g (subset_id d) = None"
      using group_profile_other [OF inj d] None by auto
    then have "map_of out (subset_id d) = None" by (rule n)
    then show ?thesis by (simp add: resolved_profile_def None)
  next
    case (Some t)
    let ?g = "(t, filter (\<lambda>d. product_type_of d = Some t) docs)"
    have own: "group_profile profiles ?g (subset_id d) = resolved_profile profiles d"
      using inj d Some by (rule group_profile_own)
    have g: "?g \<in> set ?G"
      using d Some by (auto simp: map_products_by_type_entry filter_empty_conv)
    have others: "\<forall>h \<in> set ?G. h \<noteq> ?g \<longrightarrow> group_profile profiles h (subset_id d) = None"
    proof (intro ballI impI)
      fix h assume h: "h \<in> set ?G" and ne: "h \<noteq> ?g"
      obtain t' ds' where hh: "h = (t', ds')" by (cases h)
      with h ne have "t' \<noteq> t" by (auto simp: map_products_by_type_entry)
      with Some have "product_type_of d \<noteq> Some t'" by simp
      with group_profile_other [OF inj d, of t' ds' profiles] h hh
      show "group_profile profiles h (subset_id d) = None" by simp
    qed
    show ?thesis
    proof (cases "resolved_profile profiles d")
      case None
      have "\<forall>h \<in> set ?G. group_profile profiles h (subset_id d) = None"
        using others own None by auto
      then have "map_of out (subset_id d) = None" by (rule n)
      with None show ?thesis by simp
    next
      case (Some p)
      with s [OF g others] own show ?thesis by simp
    qed
  qed
  have out: "map_of out k = None" if "k \<notin> subset_id ` set docs" for k
  proof (rule n, rule ballI)
    fix g assume g: "g \<in> set ?G"
    obtain t ds where gg: "g = (t, ds)" by (cases g)
    with g have "set ds \<subseteq> set docs" by (auto simp: map_products_by_type_entry)
    with that show "group_profile profiles g k = None"
      by (auto simp: gg group_profile_def split: option.splits)
  qed
  show ?thesis
    using r dd res out by (auto simp: prepare_profile_for_products_def)
qed

lemma resolved_profile_same_type:
  "product_type_of d1 = product_type_of d2 \<Longrightarrow>
   resolved_profile profiles d1 = Some p1 \<Longrightarrow> resolved_profile profiles d2 = Some p2 \<Longrightarrow>
   p1 = p2"
  by (auto simp: resolved_profile_def split: option.splits if_splits)

text \<open>
  C4. For products with distinct ids and profiles that carry their lowered product
  types, \<^verbatim>\<open>_prepare_profile_for_products\<close> does not raise, and a product is mapped to
  the first profile, in list order, whose lowered product types contain the lowered type
  of the product, provided the product passes the name filters of that profile; later
  profiles are not considered. Products of one type that receive a profile receive the
  same one, and a product without a matching profile has no entry.
\<close>

theorem prepare_profile_first_match:
  assumes "distinct (map subset_id docs)"
    and "\<forall>p \<in> set profiles. product_types_lowered p \<noteq> None"
  shows "\<exists>out. prepare_profile_for_products docs profiles = Inr out
           \<and> distinct (map fst out)
           \<and> (\<forall>d \<in> set docs. map_of out (subset_id d) = resolved_profile profiles d)
           \<and> (\<forall>k. k \<notin> subset_id ` set docs \<longrightarrow> map_of out k = None)
           \<and> (\<forall>d1 \<in> set docs. \<forall>d2 \<in> set docs. \<forall>p1 p2.
                 product_type_of d1 = product_type_of d2 \<longrightarrow>
                 map_of out (subset_id d1) = Some p1 \<longrightarrow>
                 map_of out (subset_id d2) = Some p2 \<longrightarrow> p1 = p2)"
proof -
  from prepare_profile_for_products_resolved [OF assms] obtain out where
    r: "prepare_profile_for_products docs profiles = Inr out"
    and d: "distinct (map fst out)"
    and m: "\<forall>d \<in> set docs. map_of out (subset_id d) = resolved_profile profiles d"
    and n: "\<forall>k. k \<notin> subset_id ` set docs \<longrightarrow> map_of out k = None"
    by blast
  have "p1 = p2"
    if "d1 \<in> set docs" "d2 \<in> set docs" "product_type_of d1 = product_type_of d2"
      "map_of out (subset_id d1) = Some p1" "map_of out (subset_id d2) = Some p2"
    for d1 d2 p1 p2
    using that m resolved_profile_same_type [of d1 d2 profiles p1 p2] by simp
  with r d m n show ?thesis by blast
qed

lemma ex_products_distinct: "distinct (map subset_id ex_products)"
  by (simp add: ex_products_def ex_product_def)

lemma ex_profiles_lowered:
  "\<forall>p \<in> set [ex_char_models, ex_models_rigs]. product_types_lowered p \<noteq> None"
  by (simp add: ex_char_models_def ex_models_rigs_def with_lowered_def ex_profile_def)

lemma ex_re_match_char:
  "re_match (Seq (literal ''char'') (Star Dot)) ''charA_model''"
  "re_match (Seq (literal ''char'') (Star Dot)) ''charB_model''"
  "\<not> re_match (Seq (literal ''char'') (Star Dot)) ''propE_model''"
  by (simp_all add: re_match_def)

theorem prepare_profile_first_match_witness:
  "\<exists>out. prepare_profile_for_products ex_products [ex_char_models, ex_models_rigs] = Inr out
     \<and> map_of out ''p1'' = Some ex_char_models
     \<and> map_of out ''p2'' = Some ex_char_models
     \<and> map_of out ''p3'' = Some ex_models_rigs
     \<and> map_of out ''p4'' = None
     \<and> map_of out ''p5'' = None"
proof -
  from prepare_profile_first_match [OF ex_products_distinct ex_profiles_lowered]
  obtain out where
    r: "prepare_profile_for_products ex_products [ex_char_models, ex_models_rigs] = Inr out"
    and m: "\<forall>d \<in> set ex_products.
              map_of out (subset_id d) = resolved_profile [ex_char_models, ex_models_rigs] d"
    by blast
  have "resolved_profile [ex_char_models, ex_models_rigs]
          (ex_product ''p1'' ''charA_model'' (Some ''Model'') None) = Some ex_char_models"
       "resolved_profile [ex_char_models, ex_models_rigs]
          (ex_product ''p2'' ''charB_model'' (Some ''model'') None) = Some ex_char_models"
       "resolved_profile [ex_char_models, ex_models_rigs]
          (ex_product ''p3'' ''propC_rig'' None (Some [''rig'', ''model''])) = Some ex_models_rigs"
       "resolved_profile [ex_char_models, ex_models_rigs]
          (ex_product ''p4'' ''camD'' (Some ''camera'') None) = None"
       "resolved_profile [ex_char_models, ex_models_rigs]
          (ex_product ''p5'' ''propE_model'' (Some ''model'') None) = None"
    by (simp_all add: resolved_profile_def product_type_of_def first_profile_for_def
        passes_name_filters_def ex_char_models_def ex_models_rigs_def with_lowered_def
        ex_profile_def ex_product_def py_not_def or_empty_def lower_def lower_char_def
        ex_re_match_char del: literal.simps)
  with m have "map_of out ''p1'' = Some ex_char_models \<and> map_of out ''p2'' = Some ex_char_models
     \<and> map_of out ''p3'' = Some ex_models_rigs \<and> map_of out ''p4'' = None
     \<and> map_of out ''p5'' = None"
    by (simp add: ex_products_def ex_product_def)
  with r show ?thesis by blast
qed

lemma prepare_one_product:
  "prepare_profile_for_products [ex_charA] [ex_filtered r] =
     Inr (if re_match r ''charA_model'' then [(''p1'', ex_filtered r)] else [])"
  by (simp add: prepare_profile_for_products_def map_products_by_type_def ex_charA_def
      ex_product_def product_type_of_def dict_append_def or_empty_def ex_filtered_def
      with_lowered_def ex_profile_def field_def py_not_def lower_def lower_char_def)

text \<open>
  C6. A product passes the name filters of a profile when at least one pattern matches
  its name from the start (\<^verbatim>\<open>re.match\<close>): \<^verbatim>\<open>charA_model\<close> passes \<^verbatim>\<open>char.*\<close> and not
  \<^verbatim>\<open>^prop\<close>. The match is not a full match (\<^verbatim>\<open>char\<close> passes) and not a search
  (\<^verbatim>\<open>model\<close> does not pass).
\<close>

theorem name_filter_matches_from_start:
  "any_pattern_matches rs name = (\<exists>r \<in> set rs. re_match r name)
   \<and> prepare_profile_for_products [ex_charA] [ex_filtered (Seq (literal ''char'') (Star Dot))]
       = Inr [(''p1'', ex_filtered (Seq (literal ''char'') (Star Dot)))]
   \<and> prepare_profile_for_products [ex_charA] [ex_filtered (Seq Bol (literal ''prop''))] = Inr []
   \<and> \<not> re_fullmatch (literal ''char'') ''charA_model''
   \<and> prepare_profile_for_products [ex_charA] [ex_filtered (literal ''char'')]
       = Inr [(''p1'', ex_filtered (literal ''char''))]
   \<and> re_search (literal ''model'') ''charA_model''
   \<and> prepare_profile_for_products [ex_charA] [ex_filtered (literal ''model'')] = Inr []"
proof -
  have "re_match (Seq (literal ''char'') (Star Dot)) ''charA_model''"
    "\<not> re_match (Seq Bol (literal ''prop'')) ''charA_model''"
    "re_match (literal ''char'') ''charA_model''"
    "\<not> re_match (literal ''model'') ''charA_model''"
    by (simp_all add: re_match_def)
  moreover have "\<not> re_fullmatch (literal ''char'') ''charA_model''"
    by (simp add: re_fullmatch_def)
  moreover have "re_search (literal ''model'') ''charA_model''"
    by (simp add: re_search_def)
  ultimately show ?thesis
    by (simp add: prepare_one_product any_pattern_matches_iff)
qed


subsection \<open>The load loop makes the calls of each plan up to the first success\<close>

lemma load_calls_append: "load_calls (xs @ ys) = load_calls xs @ load_calls ys"
  by (induction xs rule: load_calls.induct) auto

lemma first_success_append:
  "first_success load name (xs @ ys) =
     (if snd (first_success load name xs) \<noteq> [] then first_success load name xs
      else (fst (first_success load name xs) @ fst (first_success load name ys),
            snd (first_success load name ys)))"
  by (induction xs) (auto split: sum.splits)

lemma first_success_length: "length (snd (first_success load name plan)) \<le> 1"
  by (induction plan) (auto split: sum.splits)

lemma try_loaders_loaded:
  "try_loaders load lbn name lli rli repre rni idx ls (True, cs, es) = (True, cs, es)"
  by (cases ls) auto

lemma try_loaders_spec:
  "\<exists>es'. try_loaders load lbn name lli rli repre rni idx ls (False, cs, es) =
           (snd (first_success load name (loader_plan lbn repre ls)) \<noteq> [],
            cs @ snd (first_success load name (loader_plan lbn repre ls)), es')
         \<and> load_calls es' = load_calls es @ fst (first_success load name (loader_plan lbn repre ls))"
proof (induction ls arbitrary: idx es)
  case Nil
  then show ?case by (simp add: loader_plan_def)
next
  case (Cons l ls)
  show ?case
  proof (cases "map_of lbn l")
    case None
    with Cons.IH [of "idx + 1" es] show ?thesis by (simp add: loader_plan_def)
  next
    case (Some loader)
    show ?thesis
    proof (cases "load loader (repre_id repre) name")
      case (Inr c)
      with Some show ?thesis
        by (simp add: loader_plan_def try_loaders_loaded load_calls_append)
    next
      case (Inl exc)
      let ?es = "es @
                        [LoadContainer (loader_class_name loader) (repre_id repre) name,
                         Log (if exc_equals_class exc IncompatibleLoaderError
                              then InfoNotCompatible l (repre_name repre)
                              else ErrorUnexpected),
                         Log (InfoLoadingFailed
                                (if idx < lli then TryingNextLoader
                                 else if rni < rli
                                   then NotSuccessful name
                                 else TryingNextRepresentation))]"
      from Cons.IH [of "idx + 1" ?es] Some Inl show ?thesis
        by (auto simp: loader_plan_def load_calls_append)
    qed
  qed
qed

lemma try_repre_names_loaded:
  "try_repre_names load lbn name lli rli by_low ls rni names (True, cs, es) = (True, cs, es)"
  by (cases names) auto

lemma try_repre_names_spec:
  "\<exists>es'. try_repre_names load lbn name lli rli by_low ls rni names (False, cs, es) =
           (snd (first_success load name (names_plan lbn by_low ls names)) \<noteq> [],
            cs @ snd (first_success load name (names_plan lbn by_low ls names)), es')
         \<and> load_calls es' =
             load_calls es @ fst (first_success load name (names_plan lbn by_low ls names))"
proof (induction names arbitrary: rni es)
  case Nil
  then show ?case by (simp add: names_plan_def)
next
  case (Cons n names)
  show ?case
  proof (cases "map_of by_low n")
    case None
    with Cons.IH [of "rni + 1" es] show ?thesis by (simp add: names_plan_def)
  next
    case (Some repre)
    let ?fs = "first_success load name (loader_plan lbn repre ls)"
    from try_loaders_spec [of load lbn name lli rli repre rni 0 ls cs es] obtain es1 where
      t: "try_loaders load lbn name lli rli repre rni 0 ls (False, cs, es) =
            (snd ?fs \<noteq> [], cs @ snd ?fs, es1)"
      and c: "load_calls es1 = load_calls es @ fst ?fs"
      by blast
    have plan: "names_plan lbn by_low ls (n # names) =
        loader_plan lbn repre ls @ names_plan lbn by_low ls names"
      using Some by (simp add: names_plan_def)
    show ?thesis
    proof (cases "snd ?fs = []")
      case True
      with Cons.IH [of "rni + 1" es1] Some t c show ?thesis
        by (auto simp: plan first_success_append)
    next
      case False
      with Some t c show ?thesis
        by (simp add: plan first_success_append try_repre_names_loaded)
    qed
  qed
qed

lemma product_plan_eq:
  "product_plan lbn profile repres =
     names_plan lbn (repre_by_low_name repres) (or_empty (loaders profile))
       (or_empty (repre_names_lowered profile))"
  unfolding product_plan_def names_plan_def loader_plan_def by (rule refl)

lemma load_product_spec:
  assumes "map_of pbi (fst entry) = Some doc" and "map_of pbp (fst entry) = Some profile"
    and "loaders profile \<noteq> None" and "repre_names_lowered profile \<noteq> None"
  shows "\<exists>es'. load_product load lbn pbi pbp entry (cs, es) =
            Inr (cs @ snd (product_outcome load lbn pbi pbp entry), es')
          \<and> load_calls es' = load_calls es @ fst (product_outcome load lbn pbi pbp entry)"
proof -
  from assms obtain ls names where
    ls: "loaders profile = Some ls" and names: "repre_names_lowered profile = Some names"
    by auto
  from try_repre_names_spec
    [of load lbn "subset_name doc" "int (length ls) - 1" "int (length names) - 1"
       "repre_by_low_name (snd entry)" ls 0 names cs es]
  show ?thesis
    using assms(1,2) ls names
    by (auto simp: load_product_def subscript_def field_def product_outcome_def
        product_plan_eq or_empty_def)
qed

lemma load_ordered_spec:
  assumes "list_all (\<lambda>entry. entry_ok pbi pbp (fst entry)) queue"
  shows "\<exists>es'. load_ordered load lbn pbi pbp queue (cs, es) =
            (Inr (cs @ concat (map (\<lambda>entry. snd (product_outcome load lbn pbi pbp entry)) queue)), es')
          \<and> load_calls es' =
              load_calls es @ concat (map (\<lambda>entry. fst (product_outcome load lbn pbi pbp entry)) queue)"
  using assms
proof (induction queue arbitrary: cs es)
  case Nil
  then show ?case by simp
next
  case (Cons entry queue)
  from Cons.prems obtain doc profile where
    "map_of pbi (fst entry) = Some doc" "map_of pbp (fst entry) = Some profile"
    "loaders profile \<noteq> None" "repre_names_lowered profile \<noteq> None"
    by (auto simp: entry_ok_def split: option.splits)
  from load_product_spec [OF this, of load lbn cs es] obtain es1 where
    p: "load_product load lbn pbi pbp entry (cs, es) =
            Inr (cs @ snd (product_outcome load lbn pbi pbp entry), es1)"
    and c: "load_calls es1 = load_calls es @ fst (product_outcome load lbn pbi pbp entry)"
    by blast
  from Cons.prems have "list_all (\<lambda>entry. entry_ok pbi pbp (fst entry)) queue" by simp
  from Cons.IH [OF this, of "cs @ snd (product_outcome load lbn pbi pbp entry)" es1] p c
  show ?case by auto
qed


subsection \<open>The records of the load loop\<close>

lemma exc_never_equals_class: "\<not> exc_equals_class exc cls"
  by (simp add: exc_equals_class_def)

lemma try_loaders_log:
  "incompatible_free es \<Longrightarrow>
   incompatible_free (snd (snd (try_loaders load lbn name lli rli repre rni idx ls (b, cs, es))))"
proof (induction ls arbitrary: idx b cs es)
  case Nil
  then show ?case by simp
next
  case (Cons l ls)
  show ?case
  proof (cases "map_of lbn l")
    case None
    with Cons show ?thesis by simp
  next
    case (Some loader)
    show ?thesis
    proof (cases "load loader (repre_id repre) name")
      case (Inr c)
      have "incompatible_free (es @ [LoadContainer (loader_class_name loader) (repre_id repre) name])"
        using Cons.prems by (simp add: incompatible_free_def)
      from Cons.IH [OF this] Some Inr Cons.prems show ?thesis by simp
    next
      case (Inl exc)
      have "incompatible_free (es @
                        [LoadContainer (loader_class_name loader) (repre_id repre) name,
                         Log ErrorUnexpected, Log (InfoLoadingFailed f)])" for f
        using Cons.prems by (simp add: incompatible_free_def)
      from Cons.IH [OF this] Some Inl Cons.prems show ?thesis
        by (simp add: exc_never_equals_class)
    qed
  qed
qed

lemma try_repre_names_log:
  "incompatible_free es \<Longrightarrow>
   incompatible_free
     (snd (snd (try_repre_names load lbn name lli rli by_low ls rni names (b, cs, es))))"
proof (induction names arbitrary: rni b cs es)
  case Nil
  then show ?case by simp
next
  case (Cons n names)
  show ?case
  proof (cases "map_of by_low n")
    case None
    with Cons show ?thesis by simp
  next
    case (Some repre)
    obtain b' cs' es' where
      t: "try_loaders load lbn name lli rli repre rni 0 ls (False, cs, es) = (b', cs', es')"
      by (cases "try_loaders load lbn name lli rli repre rni 0 ls (False, cs, es)")
    with try_loaders_log [OF Cons.prems, of load lbn name lli rli repre rni 0 ls False cs]
    have "incompatible_free es'" by simp
    from Cons.IH [OF this] Some t Cons.prems show ?thesis by (cases b) simp_all
  qed
qed

lemma load_product_log:
  "incompatible_free es \<Longrightarrow>
   load_product load lbn pbi pbp entry (cs, es) = Inr st' \<Longrightarrow>
   incompatible_free (snd st')"
  using try_repre_names_log [of es]
  by (auto simp: load_product_def split: sum.splits)

lemma load_ordered_log:
  "incompatible_free (snd st) \<Longrightarrow>
   incompatible_free (snd (load_ordered load lbn pbi pbp queue st))"
proof (induction queue arbitrary: st)
  case Nil
  then show ?case by simp
next
  case (Cons entry queue)
  show ?case
  proof (cases "load_product load lbn pbi pbp entry st")
    case (Inl e)
    with Cons.prems show ?thesis by simp
  next
    case (Inr st')
    from Cons.prems Inr have "incompatible_free (snd st')"
      using load_product_log [of "snd st" load lbn pbi pbp entry "fst st" st'] by simp
    from Cons.IH [OF this] Inr show ?thesis by simp
  qed
qed

lemma first_success_all_fail:
  "list_all (\<lambda>(loader, repre). isl (load loader (repre_id repre) name)) plan \<Longrightarrow>
   first_success load name plan =
     (map (\<lambda>(loader, repre). (loader_class_name loader, repre_id repre, name)) plan, [])"
  by (induction plan) (auto split: sum.splits)


subsection \<open>The order of the queue\<close>

lemma ids_of_type_eq:
  "ids_of_type t items = map fst (filter (\<lambda>item. t \<in> set (or_empty (families (snd item)))) items)"
  by (induction t items rule: ids_of_type.induct) auto

lemma ids_of_types_eq:
  "ids_of_types ts items =
     concat (map (\<lambda>t. map fst (filter (\<lambda>item. t \<in> set (or_empty (families (snd item)))) items)) ts)"
  by (induction ts) (auto simp: ids_of_type_eq)

lemma product_ids_ordered_eq:
  "product_ids_ordered presets items =
     (if list_all (\<lambda>p. product_types p \<noteq> None) presets
      then Inr (concat (map (\<lambda>p. ids_of_types (or_empty (product_types p)) items) presets))
      else Inl (KeyError ''product_types''))"
  by (induction presets) (auto simp: field_def or_empty_def split: option.splits)

lemma enqueue_product_eq:
  "distinct (map fst d) \<Longrightarrow>
   enqueue_product oid d (q, seen) =
     (case map_of d oid of
        None \<Rightarrow> (q, seen)
      | Some repres \<Rightarrow>
          if repres \<in> set seen then (q, seen) else (q @ [(oid, repres)], seen @ [repres]))"
proof (induction d arbitrary: q seen)
  case Nil
  then show ?case by simp
next
  case (Cons entry d)
  obtain pid repres where e: "entry = (pid, repres)" by (cases entry)
  from Cons.prems have d: "distinct (map fst d)" and n: "pid \<notin> fst ` set d" by (auto simp: e)
  from n have none: "map_of d pid = None" by (simp add: map_of_eq_None_iff)
  show ?case
    using Cons.IH [OF d] none by (auto simp: e split: option.splits)
qed

lemma enqueue_product_inv:
  "queue_inv A (q, seen) \<Longrightarrow> set d \<subseteq> A \<Longrightarrow> queue_inv A (enqueue_product oid d (q, seen))"
proof (induction d arbitrary: q seen)
  case Nil
  then show ?case by simp
next
  case (Cons entry d)
  obtain pid repres where e: "entry = (pid, repres)" by (cases entry)
  from Cons.prems have d: "set d \<subseteq> A" and m: "(pid, repres) \<in> A" by (auto simp: e)
  show ?case
  proof (cases "repres \<notin> set seen \<and> oid = pid")
    case True
    with Cons.prems(1) m have "queue_inv A (q @ [(pid, repres)], seen @ [repres])"
      by (auto simp: queue_inv_def)
    from Cons.IH [OF this d] True show ?thesis by (simp add: e)
  next
    case False
    with Cons.IH [OF Cons.prems(1) d] show ?thesis by (auto simp: e)
  qed
qed

lemma order_representations_inv:
  "queue_inv (set d) st \<Longrightarrow> queue_inv (set d) (order_representations ids d st)"
proof (induction ids arbitrary: st)
  case Nil
  then show ?case by simp
next
  case (Cons oid ids)
  obtain q seen where st: "st = (q, seen)" by (cases st)
  from Cons.prems have "queue_inv (set d) (enqueue_product oid d st)"
    unfolding st by (rule enqueue_product_inv) simp
  from Cons.IH [OF this] show ?case by simp
qed

lemma representations_ordered_distinct:
  "distinct (map snd (representations_ordered ids d))
   \<and> set (representations_ordered ids d) \<subseteq> set d"
proof -
  have "queue_inv (set d) ([], [])" by (simp add: queue_inv_def)
  from order_representations_inv [OF this, of ids] show ?thesis
    by (auto simp: queue_inv_def representations_ordered_def)
qed

lemma representations_ordered_distinct_ids:
  assumes "distinct (map fst d)"
  shows "distinct (map fst (representations_ordered ids d))"
proof -
  let ?q = "representations_ordered ids d"
  have dq: "distinct (map snd ?q)" and sub: "set ?q \<subseteq> set d"
    using representations_ordered_distinct by auto
  have "inj_on snd (set ?q)" and "distinct ?q"
    using dq by (auto simp: distinct_map)
  have "inj_on fst (set ?q)"
  proof (rule inj_onI)
    fix a b assume a: "a \<in> set ?q" and b: "b \<in> set ?q" and eq: "fst a = fst b"
    from a b sub have "a \<in> set d" "b \<in> set d" by auto
    with assms have "map_of d (fst a) = Some (snd a)" "map_of d (fst b) = Some (snd b)"
      by simp_all
    with eq have "snd a = snd b" by simp
    with eq show "a = b" by (simp add: prod_eq_iff)
  qed
  with \<open>distinct ?q\<close> show ?thesis by (simp add: distinct_map)
qed


lemma distinct_snd_key:
  "(a, r) \<in> set d \<Longrightarrow> (b, r) \<in> set d \<Longrightarrow> distinct (map snd d) \<Longrightarrow> a = b"
  using inj_onD [of snd "set d" "(a, r)" "(b, r)"] by (simp add: distinct_map)

lemma firsts_set_cong: "set s1 = set s2 \<Longrightarrow> firsts s1 xs = firsts s2 xs"
proof (induction xs arbitrary: s1 s2)
  case Nil
  then show ?case by simp
next
  case (Cons x xs)
  from Cons.prems have "set (x # s1) = set (x # s2)" by simp
  then have "firsts (x # s1) xs = firsts (x # s2) xs" by (rule Cons.IH)
  moreover have "firsts s1 xs = firsts s2 xs" using Cons.prems by (rule Cons.IH)
  moreover have "x \<in> set s1 \<longleftrightarrow> x \<in> set s2" using Cons.prems by simp
  ultimately show ?case by simp
qed

lemma order_representations_keys:
  assumes keys: "distinct (map fst d)" and vals: "distinct (map snd d)"
  shows "queue_inv (set d) (q, seen) \<Longrightarrow>
         map fst (fst (order_representations ids d (q, seen))) =
           map fst q @ firsts (map fst q) (filter (has_key d) ids)"
proof (induction ids arbitrary: q seen)
  case Nil
  then show ?case by simp
next
  case (Cons oid ids)
  note inv = Cons.prems
  show ?case
  proof (cases "map_of d oid")
    case None
    then have "\<not> has_key d oid" by (simp add: has_key_def)
    with Cons.IH [OF inv] keys None show ?thesis
      by (simp add: enqueue_product_eq)
  next
    case (Some repres)
    then have hk: "has_key d oid" by (simp add: has_key_def)
    from Some have mem: "(oid, repres) \<in> set d" by (rule map_of_SomeD)
    have seen_iff: "repres \<in> set seen \<longleftrightarrow> oid \<in> set (map fst q)"
    proof
      assume "repres \<in> set seen"
      with inv obtain p' where p': "(p', repres) \<in> set q" by (auto simp: queue_inv_def)
      with inv have "(p', repres) \<in> set d" by (auto simp: queue_inv_def)
      with mem vals have "p' = oid"
        by (rule_tac distinct_snd_key)
      with p' show "oid \<in> set (map fst q)" by force
    next
      assume "oid \<in> set (map fst q)"
      then obtain r' where r': "(oid, r') \<in> set q" by auto
      with inv have "(oid, r') \<in> set d" by (auto simp: queue_inv_def)
      with keys Some have "r' = repres" by simp
      with r' inv show "repres \<in> set seen" by (force simp: queue_inv_def)
    qed
    show ?thesis
    proof (cases "repres \<in> set seen")
      case True
      with Cons.IH [OF inv] keys Some seen_iff hk show ?thesis
        by (simp add: enqueue_product_eq)
    next
      case False
      with inv mem have "queue_inv (set d) (q @ [(oid, repres)], seen @ [repres])"
        by (auto simp: queue_inv_def)
      from Cons.IH [OF this] False keys Some seen_iff hk
        firsts_set_cong [of "map fst q @ [oid]" "oid # map fst q"]
      show ?thesis
        by (simp add: enqueue_product_eq)
    qed
  qed
qed

lemma representations_ordered_keys:
  assumes "distinct (map fst d)" and "distinct (map snd d)"
  shows "map fst (representations_ordered ids d) = first_occurrences (filter (has_key d) ids)"
proof -
  have "queue_inv (set d) ([], [])" by (simp add: queue_inv_def)
  from order_representations_keys [OF assms this, of ids] show ?thesis
    by (simp add: representations_ordered_def first_occurrences_def)
qed

lemma order_representations_append:
  "order_representations (xs @ ys) d st =
     order_representations ys d (order_representations xs d st)"
  by (induction xs arbitrary: st) auto

lemma order_representations_skip:
  assumes keys: "distinct (map fst d)" and p2: "map_of d p2 = Some rs"
  shows "rs \<in> set seen \<Longrightarrow> p2 \<notin> fst ` set q \<Longrightarrow>
         p2 \<notin> fst ` set (fst (order_representations ids d (q, seen)))"
proof (induction ids arbitrary: q seen)
  case Nil
  then show ?case by simp
next
  case (Cons oid ids)
  show ?case
  proof (cases "map_of d oid")
    case None
    with Cons keys show ?thesis by (simp add: enqueue_product_eq)
  next
    case (Some repres)
    show ?thesis
    proof (cases "repres \<in> set seen")
      case True
      with Cons keys Some show ?thesis by (simp add: enqueue_product_eq)
    next
      case False
      with Cons.prems(1) have "repres \<noteq> rs" by auto
      with Some p2 have "oid \<noteq> p2" by auto
      with Cons.prems have "rs \<in> set (seen @ [repres])"
        and "p2 \<notin> fst ` set (q @ [(oid, repres)])" by auto
      from Cons.IH [OF this] False keys Some show ?thesis by (simp add: enqueue_product_eq)
    qed
  qed
qed

lemma order_representations_before:
  assumes keys: "distinct (map fst d)"
  shows "p2 \<notin> set ids \<Longrightarrow> p2 \<notin> fst ` set q \<Longrightarrow>
         p2 \<notin> fst ` set (fst (order_representations ids d (q, seen)))"
proof (induction ids arbitrary: q seen)
  case Nil
  then show ?case by simp
next
  case (Cons oid ids)
  from Cons.prems have ne: "oid \<noteq> p2" and rest: "p2 \<notin> set ids" by auto
  show ?case
  proof (cases "map_of d oid")
    case None
    with Cons.IH [OF rest Cons.prems(2)] keys show ?thesis by (simp add: enqueue_product_eq)
  next
    case (Some repres)
    from ne Cons.prems(2) have "p2 \<notin> fst ` set (q @ [(oid, repres)])" by auto
    from Cons.IH [OF rest this] Cons.IH [OF rest Cons.prems(2)] keys Some show ?thesis
      by (simp add: enqueue_product_eq)
  qed
qed

lemma enqueue_product_seen:
  assumes "distinct (map fst d)" and "map_of d p1 = Some rs"
  shows "rs \<in> set (snd (enqueue_product p1 d (q, seen)))"
  using assms by (simp add: enqueue_product_eq)

lemma enqueue_product_other_key:
  assumes "distinct (map fst d)" and "p2 \<noteq> p1" and "p2 \<notin> fst ` set q"
  shows "p2 \<notin> fst ` set (fst (enqueue_product p1 d (q, seen)))"
  using assms by (auto simp: enqueue_product_eq split: option.splits)

lemma representations_ordered_skips_equal:
  assumes keys: "distinct (map fst d)"
    and p1: "map_of d p1 = Some rs" and p2: "map_of d p2 = Some rs" and ne: "p1 \<noteq> p2"
    and before: "p2 \<notin> set xs"
  shows "p2 \<notin> fst ` set (representations_ordered (xs @ p1 # ys) d)"
proof -
  obtain q seen where a: "order_representations xs d ([], []) = (q, seen)"
    by (cases "order_representations xs d ([], [])")
  have q: "p2 \<notin> fst ` set q"
    using order_representations_before [OF keys before, of "[]" "[]"] a by simp
  obtain q' seen' where b: "enqueue_product p1 d (q, seen) = (q', seen')"
    by (cases "enqueue_product p1 d (q, seen)")
  have "rs \<in> set seen'"
    using enqueue_product_seen [OF keys p1, of q seen] b by simp
  moreover have "p2 \<notin> fst ` set q'"
    using enqueue_product_other_key [OF keys ne [symmetric] q, of seen] b by simp
  ultimately have "p2 \<notin> fst ` set (fst (order_representations ys d (q', seen')))"
    by (rule order_representations_skip [OF keys p2])
  then show ?thesis
    by (simp add: representations_ordered_def order_representations_append a b)
qed

end
